theory Spec2Isabelle
  imports Complex_Main "HOL-Library.Multiset"
begin

chapter \<open>The model\<close>

section \<open>Files and errors\<close>

text \<open>
  The program is a Go tool that converts annotated images into a YOLO dataset. Go strings
  and byte slices are byte sequences: \<open>string\<close>. A file system is the map from the paths
  of its regular files to their contents, together with the set of paths at which the
  operating system refuses to create or write a file (missing directory, permissions,
  full disk): a refused write leaves the files as they were.
\<close>

type_synonym path = string

record fsys =
  files :: "path \<rightharpoonup> string"
  denied :: "path set"

datatype error = NotExist | WriteFailed | EncodeFailed | ParseFailed | NotRegular

definition ReadFile :: "fsys \<Rightarrow> path \<Rightarrow> error + string" where
  "ReadFile fs p = (case files fs p of None \<Rightarrow> Inl NotExist | Some c \<Rightarrow> Inr c)"

definition WriteFile :: "fsys \<Rightarrow> path \<Rightarrow> string \<Rightarrow> error option \<times> fsys" where
  "WriteFile fs p c =
     (if p \<in> denied fs then (Some WriteFailed, fs)
      else (None, fs\<lparr>files := (files fs)(p \<mapsto> c)\<rparr>))"

section \<open>Review tool: removing a line of a label file\<close>

text \<open>
  \<open>strings.Split(s, "\n")\<close> and \<open>strings.Join(elems, "\n")\<close> for a one-byte separator.
  Splitting the empty string gives one empty line.
\<close>

fun Split :: "string \<Rightarrow> char \<Rightarrow> string list" where
  "Split [] sep = [[]]"
| "Split (c # cs) sep =
     (if c = sep then [] # Split cs sep
      else (case Split cs sep of [] \<Rightarrow> [[c]] | l # ls \<Rightarrow> (c # l) # ls))"

fun Join :: "string list \<Rightarrow> string \<Rightarrow> string" where
  "Join [] sep = []"
| "Join [l] sep = l"
| "Join (l # l' # ls) sep = l @ sep @ Join (l' # ls) sep"

abbreviation newline :: char where
  "newline \<equiv> CHR 0x0A"

text \<open>
  The loop of \<open>removeLabelFromFile\<close>: its state is the flag \<open>deleted\<close> and the slice
  \<open>newLines\<close>. \<open>strings.TrimSpace\<close> is the parameter \<open>trim\<close>.
\<close>

definition remove_step ::
  "(string \<Rightarrow> string) \<Rightarrow> string \<Rightarrow> bool \<times> string list \<Rightarrow> string \<Rightarrow> bool \<times> string list" where
  "remove_step trim targetRaw st l =
     (let (deleted, newLines) = st in
      if \<not> deleted \<and> trim l = trim targetRaw then (True, newLines)
      else if trim l \<noteq> [] then (deleted, newLines @ [l])
      else (deleted, newLines))"

definition remove_lines :: "(string \<Rightarrow> string) \<Rightarrow> string \<Rightarrow> string \<Rightarrow> string" where
  "remove_lines trim content targetRaw =
     Join (snd (foldl (remove_step trim targetRaw) (False, []) (Split content newline))) [newline]"

text \<open>
  \<open>removeLabelFromFile\<close>: the error of \<open>os.ReadFile\<close> is dropped (the content is then
  empty), and so is the error of \<open>os.WriteFile\<close>.
\<close>

definition removeLabelFromFile :: "(string \<Rightarrow> string) \<Rightarrow> fsys \<Rightarrow> path \<Rightarrow> string \<Rightarrow> fsys" where
  "removeLabelFromFile trim fs labelPath targetRaw =
     (let content = (case ReadFile fs labelPath of Inl e \<Rightarrow> [] | Inr c \<Rightarrow> c)
      in snd (WriteFile fs labelPath (remove_lines trim content targetRaw)))"

text \<open>The claim's words: delete the first line that satisfies a predicate, if any.\<close>

fun delete_first :: "('a \<Rightarrow> bool) \<Rightarrow> 'a list \<Rightarrow> 'a list" where
  "delete_first P [] = []"
| "delete_first P (x # xs) = (if P x then xs else x # delete_first P xs)"

definition kept_lines :: "(string \<Rightarrow> string) \<Rightarrow> string \<Rightarrow> string \<Rightarrow> string list" where
  "kept_lines trim content targetRaw =
     filter (\<lambda>l. trim l \<noteq> [])
       (delete_first (\<lambda>l. trim l = trim targetRaw) (Split content newline))"

text \<open>ASCII white space, for running the model on concrete files.\<close>

definition ascii_space :: "char \<Rightarrow> bool" where
  "ascii_space c = (c \<in> {CHR 0x09, CHR 0x0A, CHR 0x0B, CHR 0x0C, CHR 0x0D, CHR '' ''})"

definition ascii_trim :: "string \<Rightarrow> string" where
  "ascii_trim s = rev (dropWhile ascii_space (rev (dropWhile ascii_space s)))"

section \<open>Size-bounded JPEG encoding\<close>

text \<open>
  \<open>SmartCompress(img, outPath, maxKB)\<close>. \<open>jpeg.Encode\<close> is the parameter \<open>jpeg_encode\<close>: the
  bytes it produces for an image at a quality, or its error. The loop tries the
  qualities 95, 90, ... down to 20 and writes the first encoding whose length in bytes,
  divided by 1024 (integer division), is at most \<open>maxKB\<close>. After the loop the file is
  created (and so emptied) and the image is encoded into it at quality 20.
\<close>

function compress_loop ::
  "('img \<Rightarrow> int \<Rightarrow> error + string) \<Rightarrow> 'img \<Rightarrow> path \<Rightarrow> int \<Rightarrow> int \<Rightarrow> fsys \<Rightarrow> error option \<times> fsys" where
  "compress_loop jpeg_encode img outPath maxKB quality fs =
     (if quality \<ge> 20 then
        (case jpeg_encode img quality of
           Inl err \<Rightarrow> (Some err, fs)
         | Inr buf \<Rightarrow>
             if int (length buf) div 1024 \<le> maxKB then WriteFile fs outPath buf
             else compress_loop jpeg_encode img outPath maxKB (quality - 5) fs)
      else if outPath \<in> denied fs then (Some WriteFailed, fs)
      else
        (case jpeg_encode img 20 of
           Inl err \<Rightarrow> (Some err, fs\<lparr>files := (files fs)(outPath \<mapsto> [])\<rparr>)
         | Inr buf \<Rightarrow> (None, fs\<lparr>files := (files fs)(outPath \<mapsto> buf)\<rparr>)))"
  by pat_completeness auto
termination
  by (relation "measure (\<lambda>(e, i, p, m, q, fs). nat (q - 19))") auto

declare compress_loop.simps [simp del]

definition SmartCompress ::
  "('img \<Rightarrow> int \<Rightarrow> error + string) \<Rightarrow> 'img \<Rightarrow> path \<Rightarrow> int \<Rightarrow> fsys \<Rightarrow> error option \<times> fsys" where
  "SmartCompress jpeg_encode img outPath maxKB fs =
     compress_loop jpeg_encode img outPath maxKB 95 fs"

text \<open>
  The words of the specification: the quality levels in the order they are tried, the
  acceptance test, and the level that is chosen (the first accepted one, or the floor 20).
\<close>

definition qualities :: "int list" where
  "qualities = [95, 90, 85, 80, 75, 70, 65, 60, 55, 50, 45, 40, 35, 30, 25, 20]"

definition fits :: "int \<Rightarrow> string \<Rightarrow> bool" where
  "fits maxKB buf = (int (length buf) div 1024 \<le> maxKB)"

definition chosen_quality :: "int \<Rightarrow> (int \<Rightarrow> string) \<Rightarrow> int" where
  "chosen_quality maxKB buf =
     (case find (\<lambda>q. fits maxKB (buf q)) qualities of Some q \<Rightarrow> q | None \<Rightarrow> 20)"

text \<open>The levels the loop visits when it is entered at a quality.\<close>

function levels_from :: "int \<Rightarrow> int list" where
  "levels_from q = (if q \<ge> 20 then q # levels_from (q - 5) else [])"
  by pat_completeness auto
termination
  by (relation "measure (\<lambda>q. nat (q - 19))") auto

declare levels_from.simps [simp del]

definition first_fit :: "int \<Rightarrow> (int \<Rightarrow> string) \<Rightarrow> int \<Rightarrow> int" where
  "first_fit maxKB buf quality =
     (case find (\<lambda>q. fits maxKB (buf q)) (levels_from quality) of Some q \<Rightarrow> q | None \<Rightarrow> 20)"

section \<open>Floating point\<close>

text \<open>
  Go's \<open>float64\<close> is IEEE 754 binary64 with rounding to nearest, ties to even. A value is
  a sign (\<open>True\<close> for negative) with a magnitude, an infinity with its sign, or not a number;
  \<open>Finite True 0\<close> is the negative zero. The magnitudes of the values of the format are
  the multiples \<open>m * 2^e\<close> with \<open>m < 2^53\<close> and \<open>-1074 \<le> e \<le> 971\<close>.

  \<open>ilog2 q\<close> is the binary exponent of a positive rational, \<open>rne\<close> rounds to the nearest
  integer with ties to even, \<open>grid\<close> rounds a magnitude to 53 significant bits (to a multiple
  of \<open>2^-1074\<close> below \<open>2^-1022\<close>), and \<open>rnd\<close> is the rounding of an exact result: a
  magnitude of at least \<open>2^1024 - 2^970\<close>, half a unit above the largest value, overflows
  to the infinity.
\<close>

datatype f64 = Finite bool rat | Infinity bool | NaN

function ilog2 :: "rat \<Rightarrow> int" where
  "ilog2 q = (if 2 \<le> q then ilog2 (q / 2) + 1
              else if 0 < q \<and> q < 1 then ilog2 (q * 2) - 1 else 0)"
  by pat_completeness auto
termination
proof (relation "measure (\<lambda>q. if 1 \<le> q then nat \<lfloor>q\<rfloor> else nat \<lceil>1 / q\<rceil>)")
  show "wf (measure (\<lambda>q::rat. if 1 \<le> q then nat \<lfloor>q\<rfloor> else nat \<lceil>1 / q\<rceil>))" by simp
next
  fix q :: rat assume "2 \<le> q"
  then have "\<lfloor>q / 2\<rfloor> < \<lfloor>q\<rfloor>" by linarith
  moreover have "1 \<le> q / 2" "1 \<le> q" using \<open>2 \<le> q\<close> by simp_all
  ultimately show "(q / 2, q) \<in> measure (\<lambda>q. if 1 \<le> q then nat \<lfloor>q\<rfloor> else nat \<lceil>1 / q\<rceil>)"
    using \<open>2 \<le> q\<close> by simp
next
  fix q :: rat assume a: "\<not> 2 \<le> q" "0 < q \<and> q < 1"
  then have q: "0 < q" "q < 1" by simp_all
  have big: "1 < 1 / q" using q by simp
  show "(q * 2, q) \<in> measure (\<lambda>q. if 1 \<le> q then nat \<lfloor>q\<rfloor> else nat \<lceil>1 / q\<rceil>)"
  proof (cases "1 \<le> q * 2")
    case True
    then have "\<lfloor>q * 2\<rfloor> = 1" using q by linarith
    moreover have "2 \<le> \<lceil>1 / q\<rceil>" using big by linarith
    ultimately show ?thesis using True q by simp
  next
    case False
    define x where "x = 1 / q"
    have two: "2 \<le> \<lceil>x\<rceil>" using big by (simp only: x_def) linarith
    have "x \<le> of_int \<lceil>x\<rceil>" by (rule le_of_int_ceiling)
    moreover have "(2::rat) \<le> of_int \<lceil>x\<rceil>" using two by linarith
    ultimately have "x / 2 \<le> of_int \<lceil>x\<rceil> - 1" by linarith
    then have "x / 2 \<le> of_int (\<lceil>x\<rceil> - 1)" by simp
    then have "\<lceil>x / 2\<rceil> \<le> \<lceil>x\<rceil> - 1" by (rule ceiling_le)
    then have "\<lceil>1 / q / 2\<rceil> < \<lceil>1 / q\<rceil>" by (simp add: x_def)
    moreover have "1 / (q * 2) = 1 / q / 2" by simp
    ultimately have "\<lceil>1 / (q * 2)\<rceil> < \<lceil>1 / q\<rceil>" by metis
    moreover have "0 < \<lceil>1 / q\<rceil>" using big by linarith
    ultimately have "nat \<lceil>1 / (q * 2)\<rceil> < nat \<lceil>1 / q\<rceil>" by linarith
    then show ?thesis using False q by simp
  qed
qed

declare ilog2.simps [simp del]

definition rne :: "rat \<Rightarrow> int" where
  "rne q = (let f = \<lfloor>q\<rfloor>; d = q - of_int f in
            if d < 1 / 2 then f else if 1 / 2 < d then f + 1
            else if even f then f else f + 1)"

definition grid :: "rat \<Rightarrow> rat" where
  "grid q = (let u = 2 powi (max (ilog2 q) (- 1022) - 52) in of_int (rne (q / u)) * u)"

definition rnd :: "bool \<Rightarrow> rat \<Rightarrow> f64" where
  "rnd s q = (if 2 ^ 1024 - 2 ^ 970 \<le> q then Infinity s else Finite s (grid q))"



definition sval :: "bool \<Rightarrow> rat \<Rightarrow> rat" where
  "sval s m = (if s then - m else m)"

fun fneg :: "f64 \<Rightarrow> f64" where
  "fneg (Finite s m) = Finite (\<not> s) m"
| "fneg (Infinity s) = Infinity (\<not> s)"
| "fneg NaN = NaN"

fun fadd :: "f64 \<Rightarrow> f64 \<Rightarrow> f64" where
  "fadd (Finite s m) (Finite t n) =
     (let r = sval s m + sval t n in
      if r = 0 then Finite (s \<and> t) 0 else rnd (r < 0) \<bar>r\<bar>)"
| "fadd (Finite s m) (Infinity t) = Infinity t"
| "fadd (Infinity s) (Finite t n) = Infinity s"
| "fadd (Infinity s) (Infinity t) = (if s = t then Infinity s else NaN)"
| "fadd NaN y = NaN"
| "fadd x NaN = NaN"

definition fsub :: "f64 \<Rightarrow> f64 \<Rightarrow> f64" where
  "fsub x y = fadd x (fneg y)"

fun fmul :: "f64 \<Rightarrow> f64 \<Rightarrow> f64" where
  "fmul (Finite s m) (Finite t n) = rnd (s \<noteq> t) (m * n)"
| "fmul (Finite s m) (Infinity t) = (if m = 0 then NaN else Infinity (s \<noteq> t))"
| "fmul (Infinity s) (Finite t n) = (if n = 0 then NaN else Infinity (s \<noteq> t))"
| "fmul (Infinity s) (Infinity t) = Infinity (s \<noteq> t)"
| "fmul NaN y = NaN"
| "fmul x NaN = NaN"

fun fdiv :: "f64 \<Rightarrow> f64 \<Rightarrow> f64" where
  "fdiv (Finite s m) (Finite t n) =
     (if n = 0 then (if m = 0 then NaN else Infinity (s \<noteq> t)) else rnd (s \<noteq> t) (m / n))"
| "fdiv (Finite s m) (Infinity t) = Finite (s \<noteq> t) 0"
| "fdiv (Infinity s) (Finite t n) = Infinity (s \<noteq> t)"
| "fdiv (Infinity s) (Infinity t) = NaN"
| "fdiv NaN y = NaN"
| "fdiv x NaN = NaN"

fun flt :: "f64 \<Rightarrow> f64 \<Rightarrow> bool" where
  "flt (Finite s m) (Finite t n) = (sval s m < sval t n)"
| "flt (Finite s m) (Infinity t) = (\<not> t)"
| "flt (Infinity s) (Finite t n) = s"
| "flt (Infinity s) (Infinity t) = (s \<and> \<not> t)"
| "flt NaN y = False"
| "flt x NaN = False"

fun signbit :: "f64 \<Rightarrow> bool" where
  "signbit (Finite s m) = s"
| "signbit (Infinity s) = s"
| "signbit NaN = False"

definition float64_of_int :: "int \<Rightarrow> f64" where
  "float64_of_int i = rnd (i < 0) \<bar>of_int i\<bar>"

definition MaxFloat64 :: f64 where
  "MaxFloat64 = Finite False ((2 ^ 53 - 1) * 2 ^ 971)"

fun is_finite :: "f64 \<Rightarrow> bool" where
  "is_finite (Finite s m) = True"
| "is_finite (Infinity s) = False"
| "is_finite NaN = False"

section \<open>Annotation conversion\<close>

record LabelMeShape =
  Label :: string
  Points :: "f64 list list"

record RectLabel =
  Name :: string
  X1 :: f64
  Y1 :: f64
  X2 :: f64
  Y2 :: f64

record LabelMeJSON =
  Shapes :: "LabelMeShape list"
  Labels :: "RectLabel list"

text \<open>
  A line of the output is kept as the five values that \<open>fmt.Sprintf\<close> formats with
  \<open>"%d %.6f %.6f %.6f %.6f"\<close>.
\<close>

record yolo_line =
  cls :: int
  ncx :: f64
  ncy :: f64
  nw :: f64
  nh :: f64

definition add :: "int \<Rightarrow> int \<Rightarrow> yolo_line list \<Rightarrow> int \<Rightarrow> f64 \<Rightarrow> f64 \<Rightarrow> f64 \<Rightarrow> f64 \<Rightarrow> yolo_line list" where
  "add imgW imgH yoloLines c x1 y1 x2 y2 =
     (let w = fsub x2 x1;
          h = fsub y2 y1;
          cx = fadd x1 (fdiv w (Finite False 2));
          cy = fadd y1 (fdiv h (Finite False 2));
          line = \<lparr>cls = c,
                  ncx = fdiv cx (float64_of_int imgW), ncy = fdiv cy (float64_of_int imgH),
                  nw = fdiv w (float64_of_int imgW), nh = fdiv h (float64_of_int imgH)\<rparr>
      in yoloLines @ [line])"

text \<open>The inner loop over the points of a polygon: the state is (minX, minY, maxX, maxY).\<close>

definition point_step :: "f64 \<times> f64 \<times> f64 \<times> f64 \<Rightarrow> f64 list \<Rightarrow> f64 \<times> f64 \<times> f64 \<times> f64" where
  "point_step ext p =
     (let (minX, minY, maxX, maxY) = ext in
      if length p \<ge> 2 then
        (if flt (p ! 0) minX then p ! 0 else minX,
         if flt (p ! 1) minY then p ! 1 else minY,
         if flt maxX (p ! 0) then p ! 0 else maxX,
         if flt maxY (p ! 1) then p ! 1 else maxY)
      else ext)"

definition shape_step :: "int \<Rightarrow> int \<Rightarrow> (string \<rightharpoonup> int) \<Rightarrow> yolo_line list \<Rightarrow> LabelMeShape \<Rightarrow> yolo_line list" where
  "shape_step imgW imgH classMap yoloLines shape =
     (case classMap (Label shape) of
        Some cid \<Rightarrow>
          if length (Points shape) > 0 then
            (let (minX, minY, maxX, maxY) =
               foldl point_step (MaxFloat64, MaxFloat64, fneg MaxFloat64, fneg MaxFloat64)
                 (Points shape)
             in add imgW imgH yoloLines cid minX minY maxX maxY)
          else yoloLines
      | None \<Rightarrow> yoloLines)"

definition label_step :: "int \<Rightarrow> int \<Rightarrow> (string \<rightharpoonup> int) \<Rightarrow> yolo_line list \<Rightarrow> RectLabel \<Rightarrow> yolo_line list" where
  "label_step imgW imgH classMap yoloLines lbl =
     (case classMap (Name lbl) of
        Some cid \<Rightarrow> add imgW imgH yoloLines cid (X1 lbl) (Y1 lbl) (X2 lbl) (Y2 lbl)
      | None \<Rightarrow> yoloLines)"

definition convert_data :: "int \<Rightarrow> int \<Rightarrow> (string \<rightharpoonup> int) \<Rightarrow> LabelMeJSON \<Rightarrow> yolo_line list" where
  "convert_data imgW imgH classMap data =
     foldl (label_step imgW imgH classMap)
       (foldl (shape_step imgW imgH classMap) [] (Shapes data)) (Labels data)"

definition ConvertJsonToYolo ::
  "(string \<Rightarrow> error + LabelMeJSON) \<Rightarrow> fsys \<Rightarrow> path \<Rightarrow> int \<Rightarrow> int \<Rightarrow> (string \<rightharpoonup> int)
     \<Rightarrow> error + yolo_line list" where
  "ConvertJsonToYolo unmarshal fs jsonPath imgW imgH classMap =
     (case ReadFile fs jsonPath of
        Inl err \<Rightarrow> Inl err
      | Inr fileBytes \<Rightarrow>
          (case unmarshal fileBytes of
             Inl err \<Rightarrow> Inl err
           | Inr data \<Rightarrow> Inr (convert_data imgW imgH classMap data)))"

chapter \<open>Properties\<close>

subsection \<open>Removing a line of a label file\<close>

lemma foldl_remove_step_deleted:
  "foldl (remove_step trim t) (True, acc) ls = (True, acc @ filter (\<lambda>l. trim l \<noteq> []) ls)"
  by (induction ls arbitrary: acc) (simp_all add: remove_step_def)

lemma foldl_remove_step:
  "foldl (remove_step trim t) (False, acc) ls =
     (\<exists>l \<in> set ls. trim l = trim t,
      acc @ filter (\<lambda>l. trim l \<noteq> []) (delete_first (\<lambda>l. trim l = trim t) ls))"
  by (induction ls arbitrary: acc) (simp_all add: remove_step_def foldl_remove_step_deleted)

lemma Split_nonempty: "Split s c \<noteq> []"
  by (induction s) (simp_all split: list.splits)

lemma Split_no_sep: "l \<in> set (Split s c) \<Longrightarrow> c \<notin> set l"
proof (induction s arbitrary: l)
  case Nil
  then show ?case by simp
next
  case (Cons x s)
  obtain h t where ht: "Split s c = h # t"
    using Split_nonempty [of s c] by (cases "Split s c") auto
  with Cons show ?case by (auto split: if_splits)
qed

lemma Split_line: "c \<notin> set l \<Longrightarrow> Split l c = [l]"
  by (induction l) auto

lemma Split_append: "c \<notin> set l \<Longrightarrow> Split (l @ c # s) c = l # Split s c"
  by (induction l) auto

lemma Split_Join:
  "ls \<noteq> [] \<Longrightarrow> \<forall>l \<in> set ls. c \<notin> set l \<Longrightarrow> Split (Join ls [c]) c = ls"
proof (induction ls "[c]" rule: Join.induct)
  case 1
  then show ?case by simp
next
  case (2 l)
  then show ?case by (simp add: Split_line)
next
  case (3 l l' ls)
  then show ?case by (simp add: Split_append)
qed

lemma set_delete_first: "set (delete_first P xs) \<subseteq> set xs"
  by (induction xs) auto

lemma length_delete_first: "length xs \<le> Suc (length (delete_first P xs))"
  by (induction xs) auto

lemma remove_lines_kept:
  "remove_lines trim content targetRaw = Join (kept_lines trim content targetRaw) [newline]"
  by (simp add: remove_lines_def kept_lines_def foldl_remove_step)

lemma kept_lines_no_newline:
  "l \<in> set (kept_lines trim content targetRaw) \<Longrightarrow> newline \<notin> set l"
  using set_delete_first [of "\<lambda>l. trim l = trim targetRaw" "Split content newline"]
  by (auto simp: kept_lines_def dest: Split_no_sep)

text \<open>
  C10. \<open>removeLabelFromFile\<close> rewrites the label file (when the write is not refused) as
  the lines it keeps, joined by single newlines: the lines of the old content (empty when
  the file cannot be read) without the first line whose trimmed text is the trimmed
  target, and without every line whose trimmed text is empty. At most one line is deleted
  as the target. The new content has no trailing newline: it is empty when no line is
  kept, and otherwise splitting it at newlines gives back exactly the kept lines.
\<close>

theorem removeLabelFromFile_rewrites:
  assumes "labelPath \<notin> denied fs"
  shows "files (removeLabelFromFile trim fs labelPath targetRaw) =
           (files fs)(labelPath \<mapsto>
              Join (kept_lines trim (case files fs labelPath of None \<Rightarrow> [] | Some c \<Rightarrow> c) targetRaw)
                [newline])
         \<and> length (Split content newline)
             \<le> Suc (length (delete_first (\<lambda>l. trim l = trim targetRaw) (Split content newline)))
         \<and> (if kept_lines trim content targetRaw = []
              then remove_lines trim content targetRaw = []
              else Split (remove_lines trim content targetRaw) newline
                     = kept_lines trim content targetRaw)"
proof (intro conjI)
  show "files (removeLabelFromFile trim fs labelPath targetRaw) =
           (files fs)(labelPath \<mapsto>
              Join (kept_lines trim (case files fs labelPath of None \<Rightarrow> [] | Some c \<Rightarrow> c) targetRaw)
                [newline])"
    using assms
    by (simp add: removeLabelFromFile_def ReadFile_def WriteFile_def remove_lines_kept
        split: option.splits)
  show "length (Split content newline)
          \<le> Suc (length (delete_first (\<lambda>l. trim l = trim targetRaw) (Split content newline)))"
    by (rule length_delete_first)
  show "if kept_lines trim content targetRaw = []
        then remove_lines trim content targetRaw = []
        else Split (remove_lines trim content targetRaw) newline
               = kept_lines trim content targetRaw"
    using Split_Join [of "kept_lines trim content targetRaw" newline]
    by (auto simp: remove_lines_kept dest: kept_lines_no_newline)
qed

theorem removeLabelFromFile_rewrites_witness:
  "files (removeLabelFromFile ascii_trim
            \<lparr>files = [''a.txt'' \<mapsto> ''0 1 2\<newline>\<newline>1 2 3 \<newline>0 1 2\<newline>''], denied = {}\<rparr>
            ''a.txt'' '' 0 1 2'') ''a.txt''
     = Some ''1 2 3 \<newline>0 1 2''"
  using removeLabelFromFile_rewrites
    [of "''a.txt''"
        "\<lparr>files = [''a.txt'' \<mapsto> ''0 1 2\<newline>\<newline>1 2 3 \<newline>0 1 2\<newline>''], denied = {}\<rparr>"
        ascii_trim "'' 0 1 2''" "[]"]
  by (simp add: kept_lines_def ascii_trim_def ascii_space_def)

subsection \<open>Size-bounded JPEG encoding\<close>

lemma levels_from_95: "levels_from 95 = qualities"
  by (simp add: levels_from.simps [of 95] levels_from.simps [of 90] levels_from.simps [of 85]
      levels_from.simps [of 80] levels_from.simps [of 75] levels_from.simps [of 70]
      levels_from.simps [of 65] levels_from.simps [of 60] levels_from.simps [of 55]
      levels_from.simps [of 50] levels_from.simps [of 45] levels_from.simps [of 40]
      levels_from.simps [of 35] levels_from.simps [of 30] levels_from.simps [of 25]
      levels_from.simps [of 20] levels_from.simps [of 15] qualities_def)

lemma find_qualities:
  "find P qualities = (if P 95 then Some 95 else if P 90 then Some 90 else if P 85 then Some 85
    else if P 80 then Some 80 else if P 75 then Some 75 else if P 70 then Some 70
    else if P 65 then Some 65 else if P 60 then Some 60 else if P 55 then Some 55
    else if P 50 then Some 50 else if P 45 then Some 45 else if P 40 then Some 40
    else if P 35 then Some 35 else if P 30 then Some 30 else if P 25 then Some 25
    else if P 20 then Some 20 else None)"
  by (simp add: qualities_def)

lemma fits_bytes: "fits maxKB b \<longleftrightarrow> int (length b) < (maxKB + 1) * 1024"
proof -
  define d where "d = int (length b) div 1024"
  define m where "m = int (length b) mod 1024"
  have "int (length b) = 1024 * d + m" by (simp add: d_def m_def)
  moreover have "0 \<le> m" "m < 1024" by (simp_all add: m_def)
  ultimately have "d \<le> maxKB \<longleftrightarrow> int (length b) < (maxKB + 1) * 1024" by auto
  then show ?thesis by (simp add: fits_def d_def)
qed

lemma first_fit_rec:
  "first_fit maxKB buf quality =
     (if quality \<ge> 20 then if fits maxKB (buf quality) then quality
        else first_fit maxKB buf (quality - 5)
      else 20)"
  by (simp add: first_fit_def levels_from.simps [of quality])

lemma compress_loop_find:
  assumes "\<forall>q \<in> set (levels_from quality). jpeg_encode img q = Inr (buf q)"
    and "outPath \<notin> denied fs" and "jpeg_encode img 20 = Inr (buf 20)"
  shows "compress_loop jpeg_encode img outPath maxKB quality fs =
           (None, fs\<lparr>files := (files fs)(outPath \<mapsto> buf (first_fit maxKB buf quality))\<rparr>)"
  using assms
proof (induction jpeg_encode img outPath maxKB quality fs rule: compress_loop.induct)
  case (1 jpeg_encode img outPath maxKB quality fs)
  show ?case
  proof (cases "quality \<ge> 20")
    case False
    then show ?thesis
      using "1.prems"(2,3)
      by (cases fs)
        (simp add: compress_loop.simps [of _ _ _ _ quality] first_fit_rec [of _ _ quality]
           fun_upd_def)
  next
    case True
    then have here: "jpeg_encode img quality = Inr (buf quality)"
      and later: "\<forall>q \<in> set (levels_from (quality - 5)). jpeg_encode img q = Inr (buf q)"
      using "1.prems"(1) by (simp_all add: levels_from.simps [of quality])
    show ?thesis
    proof (cases "fits maxKB (buf quality)")
      case fit: True
      then show ?thesis
        using True here "1.prems"(2)
        by (cases fs)
          (simp add: compress_loop.simps [of _ _ _ _ quality] first_fit_rec [of _ _ quality]
            WriteFile_def fits_def fun_upd_def)
    next
      case nofit: False
      have "compress_loop jpeg_encode img outPath maxKB quality fs =
              compress_loop jpeg_encode img outPath maxKB (quality - 5) fs"
        using True nofit here
        by (simp add: compress_loop.simps [of _ _ _ _ quality] fits_def)
      also have "\<dots> = (None, fs\<lparr>files := (files fs)(outPath \<mapsto>
              buf (first_fit maxKB buf (quality - 5)))\<rparr>)"
        using "1.IH" [of "buf quality"] True nofit here later "1.prems"(2,3)
        by (simp add: fits_def fun_upd_def)
      finally show ?thesis
        using True nofit by (simp add: first_fit_rec [of _ _ quality] fun_upd_def)
    qed
  qed
qed


text \<open>
  C1 (as amended). When \<open>jpeg.Encode\<close> succeeds at the sixteen quality levels and the write
  is not refused, \<open>SmartCompress\<close> returns no error and writes the encoding at the first
  level, from 95 down in steps of 5, whose byte length divided by 1024 (integer division)
  is at most \<open>maxKB\<close>, or the encoding at quality 20 when no level is accepted. When the
  quality-20 encoding is accepted, the written encoding is an accepted one: its length
  divided by 1024 is at most \<open>maxKB\<close>, that is, it has fewer than \<open>(maxKB + 1) * 1024\<close>
  bytes.
\<close>

theorem SmartCompress_budget:
  assumes "\<forall>q \<in> set qualities. jpeg_encode img q = Inr (buf q)"
    and "outPath \<notin> denied fs"
  shows "SmartCompress jpeg_encode img outPath maxKB fs =
           (None, fs\<lparr>files := (files fs)(outPath \<mapsto> buf (chosen_quality maxKB buf))\<rparr>)
         \<and> (fits maxKB (buf 20) \<longrightarrow>
              int (length (buf (chosen_quality maxKB buf))) div 1024 \<le> maxKB
              \<and> int (length (buf (chosen_quality maxKB buf))) < (maxKB + 1) * 1024)
         \<and> ((\<forall>q \<in> set qualities. \<not> fits maxKB (buf q)) \<longrightarrow> chosen_quality maxKB buf = 20)"
proof (intro conjI impI)
  have "jpeg_encode img 20 = Inr (buf 20)"
    using assms(1) by (simp add: qualities_def)
  then show "SmartCompress jpeg_encode img outPath maxKB fs =
           (None, fs\<lparr>files := (files fs)(outPath \<mapsto> buf (chosen_quality maxKB buf))\<rparr>)"
    using assms compress_loop_find [of 95 jpeg_encode img buf outPath fs maxKB]
    by (simp add: SmartCompress_def chosen_quality_def first_fit_def levels_from_95)
next
  assume floor_fits: "fits maxKB (buf 20)"
  have chosen: "fits maxKB (buf (chosen_quality maxKB buf))"
  proof (cases "find (\<lambda>q. fits maxKB (buf q)) qualities")
    case None
    then show ?thesis using floor_fits by (simp add: chosen_quality_def)
  next
    case (Some q)
    then show ?thesis by (auto simp: chosen_quality_def dest: find_Some_iff [THEN iffD1])
  qed
  then show "int (length (buf (chosen_quality maxKB buf))) div 1024 \<le> maxKB"
    by (simp add: fits_def)
  from chosen show "int (length (buf (chosen_quality maxKB buf))) < (maxKB + 1) * 1024"
    by (simp add: fits_bytes)
next
  assume "\<forall>q \<in> set qualities. \<not> fits maxKB (buf q)"
  then show "chosen_quality maxKB buf = 20"
    by (simp add: chosen_quality_def find_None_iff [THEN iffD2])
qed

theorem SmartCompress_budget_witness:
  "SmartCompress (\<lambda>(img::unit) q. Inr (replicate (nat (30 * q)) (CHR ''x''))) () ''o.jpg'' 1
      \<lparr>files = Map.empty, denied = {}\<rparr>
     = (None, \<lparr>files = [''o.jpg'' \<mapsto> replicate 1950 (CHR ''x'')], denied = {}\<rparr>)
   \<and> int (length (replicate 1950 (CHR ''x''))) < (1 + 1) * 1024"
  using SmartCompress_budget
    [of "\<lambda>(img::unit) q. Inr (replicate (nat (30 * q)) (CHR ''x''))" "()"
        "\<lambda>q. replicate (nat (30 * q)) (CHR ''x'')" "''o.jpg''"
        "\<lparr>files = Map.empty, denied = {}\<rparr>" 1]
  by (simp add: chosen_quality_def find_qualities fits_def)

text \<open>
  C1 (as stated) fails. An encoder that produces 1500 bytes at every quality and
  \<open>maxKB = 1\<close>: the quality-20 encoding is 1 KiB by integer division, so the budget is at
  least the size at quality 20, and the first level is accepted; the file written has
  1500 bytes, more than \<open>1 * 1024\<close>.
\<close>

theorem SmartCompress_exceeds_budget:
  "int (length (replicate 1500 (CHR ''x''))) div 1024 \<le> 1
   \<and> SmartCompress (\<lambda>(img::unit) q. Inr (replicate 1500 (CHR ''x''))) () ''o.jpg'' 1
       \<lparr>files = Map.empty, denied = {}\<rparr>
     = (None, \<lparr>files = [''o.jpg'' \<mapsto> replicate 1500 (CHR ''x'')], denied = {}\<rparr>)
   \<and> \<not> int (length (replicate 1500 (CHR ''x''))) \<le> 1 * 1024"
  by (simp add: SmartCompress_def compress_loop.simps [of _ _ _ _ 95] WriteFile_def)

text \<open>
  \<open>SmartCompress\<close> can fail: an error of the encoder is returned at once and nothing is
  written, and a refused write is returned as an error.
\<close>

lemma SmartCompress_encoder_error:
  "SmartCompress (\<lambda>img q. Inl EncodeFailed) img outPath maxKB fs = (Some EncodeFailed, fs)"
  by (simp add: SmartCompress_def compress_loop.simps [of _ _ _ _ 95])

subsection \<open>Floating point\<close>

lemma ilog2_lower: "0 < q \<Longrightarrow> 2 powi (ilog2 q) \<le> q"
proof (induction q rule: ilog2.induct)
  case (1 q)
  show ?case
  proof (cases "2 \<le> q")
    case True
    then have "2 powi (ilog2 (q / 2)) \<le> q / 2" using 1 by simp
    then show ?thesis using True
      by (simp add: ilog2.simps [of q] power_int_add)
  next
    case False
    show ?thesis
    proof (cases "q < 1")
      case True
      then have "2 powi (ilog2 (q * 2)) \<le> q * 2" using 1 False by simp
      then show ?thesis using True False 1
        by (simp add: ilog2.simps [of q] power_int_diff)
    next
      case False
      then show ?thesis using \<open>\<not> 2 \<le> q\<close> by (simp add: ilog2.simps [of q])
    qed
  qed
qed

lemma ilog2_upper: "0 < q \<Longrightarrow> q < 2 powi (ilog2 q + 1)"
proof (induction q rule: ilog2.induct)
  case (1 q)
  show ?case
  proof (cases "2 \<le> q")
    case True
    then have "q / 2 < 2 powi (ilog2 (q / 2) + 1)" using 1 by simp
    then show ?thesis using True
      by (simp add: ilog2.simps [of q] power_int_add)
  next
    case False
    show ?thesis
    proof (cases "q < 1")
      case True
      then have "q * 2 < 2 powi (ilog2 (q * 2) + 1)" using 1 False by simp
      then show ?thesis using True False 1
        by (simp add: ilog2.simps [of q] power_int_add)
    next
      case False
      then show ?thesis using \<open>\<not> 2 \<le> q\<close> by (simp add: ilog2.simps [of q])
    qed
  qed
qed

lemma ilog2_nonneg: "1 \<le> q \<Longrightarrow> 0 \<le> ilog2 q"
proof (rule ccontr)
  assume q: "1 \<le> q" and "\<not> 0 \<le> ilog2 q"
  then have "ilog2 q + 1 \<le> 0" by simp
  then have "(2::rat) powi (ilog2 q + 1) \<le> 2 powi 0"
    by (intro power_int_increasing) simp_all
  moreover have "q < 2 powi (ilog2 q + 1)" using q by (intro ilog2_upper) simp
  ultimately show False using q by simp
qed

lemma rne_ge_floor: "\<lfloor>q\<rfloor> \<le> rne q"
  by (simp add: rne_def Let_def)

lemma grid_pos:
  assumes "1 \<le> q"
  shows "0 < grid q"
proof -
  define e where "e = ilog2 q"
  define u :: rat where "u = 2 powi (e - 52)"
  have e: "0 \<le> e" using assms ilog2_nonneg by (simp add: e_def)
  have u: "0 < u" by (simp add: u_def)
  have "2 powi e \<le> q" using assms ilog2_lower [of q] by (simp add: e_def)
  moreover have "(2::rat) powi e = 2 ^ 52 * u"
    by (simp add: u_def power_int_diff)
  ultimately have "2 ^ 52 * u \<le> q" by simp
  then have "2 ^ 52 \<le> q / u" using u by (simp add: pos_le_divide_eq)
  moreover have "(1::rat) \<le> 2 ^ 52" by simp
  ultimately have "1 \<le> q / u" by (rule order_trans [rotated])
  then have "1 \<le> \<lfloor>q / u\<rfloor>" by linarith
  then have "1 \<le> rne (q / u)" using rne_ge_floor [of "q / u"] by linarith
  then have "0 < of_int (rne (q / u)) * u" using u by simp
  moreover have "max (ilog2 q) (- 1022) = e" using e by (simp add: e_def)
  ultimately show ?thesis by (simp add: grid_def Let_def u_def)
qed

lemma float64_of_int_pos:
  assumes "0 < i" and "i < 2 ^ 63"
  shows "\<exists>g. float64_of_int i = Finite False g \<and> 0 < g"
proof -
  have "(of_int i :: rat) < of_int (2 ^ 63)" using assms(2) by (simp only: of_int_less_iff)
  then have "(of_int i :: rat) < 2 ^ 63" by simp
  moreover have "(2::rat) ^ 63 \<le> 2 ^ 1024 - 2 ^ 970" by simp
  ultimately have small: "\<not> (2::rat) ^ 1024 - 2 ^ 970 \<le> of_int i" by linarith
  have "(1::rat) \<le> of_int i" using assms(1) by simp
  then have "0 < grid (of_int i)" by (rule grid_pos)
  then show ?thesis using assms(1) small by (simp add: float64_of_int_def rnd_def)
qed

lemma signbit_rnd [simp]: "signbit (rnd s q) = s"
  by (simp add: rnd_def)

lemma signbit_fsub:
  assumes "is_finite x" and "is_finite y" and "flt x y"
  shows "signbit (fsub x y) \<and> fsub x y \<noteq> NaN"
proof -
  obtain s m where x: "x = Finite s m" using assms(1) by (cases x) simp_all
  obtain t n where y: "y = Finite t n" using assms(2) by (cases y) simp_all
  have "sval s m + sval (\<not> t) n < 0" using assms(3) by (simp add: x y sval_def split: if_splits)
  then show ?thesis by (simp add: x y fsub_def Let_def rnd_def)
qed

lemma signbit_fdiv:
  assumes "signbit w" and "w \<noteq> NaN" and "0 < g"
  shows "signbit (fdiv w (Finite False g))"
  using assms by (cases w) simp_all

lemma foldl_point_step_short:
  "\<forall>p \<in> set ps. length p < 2 \<Longrightarrow> foldl point_step ext ps = ext"
  by (induction ps arbitrary: ext) (simp_all add: point_step_def split: prod.splits)

lemma sentinel_width: "fsub (fneg MaxFloat64) MaxFloat64 = Infinity True"
  by (simp add: fsub_def MaxFloat64_def sval_def rnd_def)

subsection \<open>Annotation conversion\<close>

lemma add_appends:
  "add imgW imgH yoloLines c x1 y1 x2 y2 =
     yoloLines @
       [\<lparr>cls = c,
         ncx = fdiv (fadd x1 (fdiv (fsub x2 x1) (Finite False 2))) (float64_of_int imgW),
         ncy = fdiv (fadd y1 (fdiv (fsub y2 y1) (Finite False 2))) (float64_of_int imgH),
         nw = fdiv (fsub x2 x1) (float64_of_int imgW),
         nh = fdiv (fsub y2 y1) (float64_of_int imgH)\<rparr>]"
  by (simp add: add_def Let_def)

lemma foldl_shape_step_unmapped:
  "\<forall>s \<in> set shapes. classMap (Label s) = None \<Longrightarrow>
     foldl (shape_step imgW imgH classMap) acc shapes = acc"
  by (induction shapes arbitrary: acc) (simp_all add: shape_step_def)

lemma foldl_label_step_unmapped:
  "\<forall>l \<in> set labels. classMap (Name l) = None \<Longrightarrow>
     foldl (label_step imgW imgH classMap) acc labels = acc"
  by (induction labels arbitrary: acc) (simp_all add: label_step_def)

lemma foldl_shape_step_filter:
  "foldl (shape_step imgW imgH classMap) acc (filter (\<lambda>s. classMap (Label s) \<noteq> None) shapes)
     = foldl (shape_step imgW imgH classMap) acc shapes"
  by (induction shapes arbitrary: acc) (auto simp: shape_step_def)

lemma foldl_label_step_filter:
  "foldl (label_step imgW imgH classMap) acc (filter (\<lambda>l. classMap (Name l) \<noteq> None) labels)
     = foldl (label_step imgW imgH classMap) acc labels"
  by (induction labels arbitrary: acc) (auto simp: label_step_def)

text \<open>
  C5. A shape or a rectangle whose label is not a key of the class map leaves the output
  lines as they are. The lines of a document are those of the document without its
  unmapped shapes and rectangles. When no label of the document is mapped and the file
  is read and parsed, \<open>ConvertJsonToYolo\<close> returns the empty list and no error. (The
  function has no other output: nothing is logged.)
\<close>

theorem unmapped_labels_dropped:
  "(classMap (Label shape) = None \<longrightarrow>
      shape_step imgW imgH classMap yoloLines shape = yoloLines)
   \<and> (classMap (Name lbl) = None \<longrightarrow>
      label_step imgW imgH classMap yoloLines lbl = yoloLines)
   \<and> convert_data imgW imgH classMap data =
       convert_data imgW imgH classMap
         \<lparr>Shapes = filter (\<lambda>s. classMap (Label s) \<noteq> None) (Shapes data),
          Labels = filter (\<lambda>l. classMap (Name l) \<noteq> None) (Labels data)\<rparr>
   \<and> (ReadFile fs jsonPath = Inr fileBytes \<and> unmarshal fileBytes = Inr data
        \<and> (\<forall>s \<in> set (Shapes data). classMap (Label s) = None)
        \<and> (\<forall>l \<in> set (Labels data). classMap (Name l) = None) \<longrightarrow>
      ConvertJsonToYolo unmarshal fs jsonPath imgW imgH classMap = Inr [])"
proof (intro conjI impI)
  assume "classMap (Label shape) = None"
  then show "shape_step imgW imgH classMap yoloLines shape = yoloLines"
    by (simp add: shape_step_def)
next
  assume "classMap (Name lbl) = None"
  then show "label_step imgW imgH classMap yoloLines lbl = yoloLines"
    by (simp add: label_step_def)
next
  show "convert_data imgW imgH classMap data =
       convert_data imgW imgH classMap
         \<lparr>Shapes = filter (\<lambda>s. classMap (Label s) \<noteq> None) (Shapes data),
          Labels = filter (\<lambda>l. classMap (Name l) \<noteq> None) (Labels data)\<rparr>"
    by (simp add: convert_data_def foldl_shape_step_filter foldl_label_step_filter
        del: not_None_eq)
next
  assume a: "ReadFile fs jsonPath = Inr fileBytes \<and> unmarshal fileBytes = Inr data
        \<and> (\<forall>s \<in> set (Shapes data). classMap (Label s) = None)
        \<and> (\<forall>l \<in> set (Labels data). classMap (Name l) = None)"
  then have "convert_data imgW imgH classMap data = []"
    by (simp add: convert_data_def foldl_shape_step_unmapped foldl_label_step_unmapped)
  then show "ConvertJsonToYolo unmarshal fs jsonPath imgW imgH classMap = Inr []"
    using a by (simp add: ConvertJsonToYolo_def)
qed

text \<open>
  C7. A rectangle whose label is mapped appends exactly one line, computed from its four
  coordinates whatever their order: the class id, the centre \<open>x1 + (x2 - x1) / 2\<close> and the
  size \<open>x2 - x1\<close>, each divided by the image dimension. For an image width in
  \<open>1 .. 2^63 - 1\<close> and finite \<open>x2 < x1\<close> the normalised width has the negative sign, and
  likewise the height for \<open>y2 < y1\<close>.
\<close>

theorem rectangle_passes_through:
  assumes "classMap (Name lbl) = Some cid"
  shows "\<exists>line. label_step imgW imgH classMap yoloLines lbl = yoloLines @ [line]
      \<and> cls line = cid
      \<and> ncx line = fdiv (fadd (X1 lbl) (fdiv (fsub (X2 lbl) (X1 lbl)) (Finite False 2)))
                      (float64_of_int imgW)
      \<and> ncy line = fdiv (fadd (Y1 lbl) (fdiv (fsub (Y2 lbl) (Y1 lbl)) (Finite False 2)))
                      (float64_of_int imgH)
      \<and> nw line = fdiv (fsub (X2 lbl) (X1 lbl)) (float64_of_int imgW)
      \<and> nh line = fdiv (fsub (Y2 lbl) (Y1 lbl)) (float64_of_int imgH)
      \<and> (0 < imgW \<and> imgW < 2 ^ 63 \<and> is_finite (X1 lbl) \<and> is_finite (X2 lbl)
           \<and> flt (X2 lbl) (X1 lbl) \<longrightarrow> signbit (nw line))
      \<and> (0 < imgH \<and> imgH < 2 ^ 63 \<and> is_finite (Y1 lbl) \<and> is_finite (Y2 lbl)
           \<and> flt (Y2 lbl) (Y1 lbl) \<longrightarrow> signbit (nh line))"
proof -
  have w: "signbit (fdiv (fsub x2 x1) (float64_of_int d))"
    if d: "0 < d" "d < 2 ^ 63" and x: "is_finite x2" "is_finite x1" "flt x2 x1" for x1 x2 d
  proof -
    obtain g where "float64_of_int d = Finite False g" "0 < g"
      using float64_of_int_pos [OF d] by blast
    then show ?thesis
      using signbit_fsub [OF x] by (simp add: signbit_fdiv)
  qed
  show ?thesis
    using assms by (simp add: label_step_def add_appends w)
qed

theorem rectangle_passes_through_witness:
  "signbit (nw (last (label_step 100 50 [''x'' \<mapsto> 0] []
      \<lparr>Name = ''x'', X1 = Finite False 30, Y1 = Finite False 10,
       X2 = Finite False 10, Y2 = Finite False 20\<rparr>)))"
proof -
  obtain line where "label_step 100 50 [''x'' \<mapsto> 0] []
      \<lparr>Name = ''x'', X1 = Finite False 30, Y1 = Finite False 10,
       X2 = Finite False 10, Y2 = Finite False 20\<rparr> = [] @ [line]" and "signbit (nw line)"
    using rectangle_passes_through
      [of "[''x'' \<mapsto> 0]"
          "\<lparr>Name = ''x'', X1 = Finite False 30, Y1 = Finite False 10,
            X2 = Finite False 10, Y2 = Finite False 20\<rparr>" 0 100 50 "[]"]
    by (auto simp: sval_def)
  then show ?thesis by simp
qed

text \<open>
  C9. A polygon whose label is mapped and whose points list is not empty but holds only
  points of fewer than two coordinates appends exactly one line, computed from the
  untouched sentinels \<open>(MaxFloat64, MaxFloat64, -MaxFloat64, -MaxFloat64)\<close>. The width
  \<open>-MaxFloat64 - MaxFloat64\<close> overflows to \<open>-Inf\<close>; for image dimensions in
  \<open>1 .. 2^63 - 1\<close> the four normalised values of the line are \<open>-Inf\<close>.
\<close>

theorem degenerate_polygon_emits_sentinel_box:
  assumes "classMap (Label shape) = Some cid"
    and "Points shape \<noteq> []"
    and "\<forall>p \<in> set (Points shape). length p < 2"
  shows "shape_step imgW imgH classMap yoloLines shape =
           add imgW imgH yoloLines cid MaxFloat64 MaxFloat64 (fneg MaxFloat64) (fneg MaxFloat64)
       \<and> (0 < imgW \<and> imgW < 2 ^ 63 \<and> 0 < imgH \<and> imgH < 2 ^ 63 \<longrightarrow>
            shape_step imgW imgH classMap yoloLines shape =
              yoloLines @ [\<lparr>cls = cid, ncx = Infinity True, ncy = Infinity True,
                            nw = Infinity True, nh = Infinity True\<rparr>])"
proof (intro conjI impI)
  show step: "shape_step imgW imgH classMap yoloLines shape =
           add imgW imgH yoloLines cid MaxFloat64 MaxFloat64 (fneg MaxFloat64) (fneg MaxFloat64)"
    using assms by (simp add: shape_step_def foldl_point_step_short)
  assume dims: "0 < imgW \<and> imgW < 2 ^ 63 \<and> 0 < imgH \<and> imgH < 2 ^ 63"
  obtain gw where gw: "float64_of_int imgW = Finite False gw"
    using float64_of_int_pos [of imgW] dims by blast
  obtain gh where gh: "float64_of_int imgH = Finite False gh"
    using float64_of_int_pos [of imgH] dims by blast
  have centre: "fadd MaxFloat64 (Infinity True) = Infinity True"
    by (simp add: MaxFloat64_def)
  show "shape_step imgW imgH classMap yoloLines shape =
              yoloLines @ [\<lparr>cls = cid, ncx = Infinity True, ncy = Infinity True,
                            nw = Infinity True, nh = Infinity True\<rparr>]"
    by (simp add: step add_appends sentinel_width centre gw gh)
qed

theorem degenerate_polygon_emits_sentinel_box_witness:
  "shape_step 100 50 [''x'' \<mapsto> 0] []
      \<lparr>Label = ''x'', Points = [[Finite False 1], []]\<rparr>
     = [\<lparr>cls = 0, ncx = Infinity True, ncy = Infinity True,
         nw = Infinity True, nh = Infinity True\<rparr>]"
  using degenerate_polygon_emits_sentinel_box
    [of "[''x'' \<mapsto> 0]" "\<lparr>Label = ''x'', Points = [[Finite False 1], []]\<rparr>" 0 100 50 "[]",
     THEN conjunct2]
  by simp

theorem unmapped_labels_dropped_witness:
  "ConvertJsonToYolo (\<lambda>b. Inr \<lparr>Shapes = [\<lparr>Label = ''cat'', Points = [[Finite False 1, Finite False 2]]\<rparr>],
                               Labels = [\<lparr>Name = ''dog'', X1 = Finite False 1, Y1 = Finite False 1,
                                          X2 = Finite False 2, Y2 = Finite False 2\<rparr>]\<rparr>)
      \<lparr>files = [''a.json'' \<mapsto> ''{}''], denied = {}\<rparr> ''a.json'' 100 50 [''x'' \<mapsto> 0] = Inr []"
  using unmapped_labels_dropped
    [where classMap = "[''x'' \<mapsto> 0]" and imgW = 100 and imgH = 50 and data =
        "\<lparr>Shapes = [\<lparr>Label = ''cat'', Points = [[Finite False 1, Finite False 2]]\<rparr>],
          Labels = [\<lparr>Name = ''dog'', X1 = Finite False 1, Y1 = Finite False 1,
                     X2 = Finite False 2, Y2 = Finite False 2\<rparr>]\<rparr>"
        and fs = "\<lparr>files = [''a.json'' \<mapsto> ''{}''], denied = {}\<rparr>"
        and jsonPath = "''a.json''" and fileBytes = "''{}''" and unmarshal =
        "\<lambda>b. Inr \<lparr>Shapes = [\<lparr>Label = ''cat'', Points = [[Finite False 1, Finite False 2]]\<rparr>],
                 Labels = [\<lparr>Name = ''dog'', X1 = Finite False 1, Y1 = Finite False 1,
                            X2 = Finite False 2, Y2 = Finite False 2\<rparr>]\<rparr>"]
  by (simp add: ReadFile_def)

end
